theory Spec2Isabelle
  imports Main "HOL-Library.Sublist"
begin

section \<open>Python string operations used by pycco\<close>

text \<open>
  Strings are Python 2 byte strings: a \<open>string\<close> is a list of 8-bit characters.
  Whitespace is what \<open>str.strip\<close> and the pattern \<open>\s\<close> (without the UNICODE flag)
  take it to be: space, tab, line feed, vertical tab, form feed, carriage return. A
  unicode text behaves in the same way as long as it holds no other white space.
\<close>

abbreviation nl :: char where
  "nl \<equiv> CHR 0x0A"

abbreviation dquote :: char where
  "dquote \<equiv> CHR 0x22"

abbreviation backtick :: char where
  "backtick \<equiv> CHR 0x60"

definition is_space :: "char \<Rightarrow> bool" where
  "is_space c \<longleftrightarrow> c = CHR 0x20 \<or> c = CHR 0x09 \<or> c = CHR 0x0A \<or> c = CHR 0x0B \<or> c = CHR 0x0C \<or> c = CHR 0x0D"

text \<open>\<open>s.startswith(d)\<close> and \<open>s.endswith(d)\<close>.\<close>

definition startswith :: "string \<Rightarrow> string \<Rightarrow> bool" where
  "startswith s d \<longleftrightarrow> take (length d) s = d"

definition endswith :: "string \<Rightarrow> string \<Rightarrow> bool" where
  "endswith s d \<longleftrightarrow> length d \<le> length s \<and> drop (length s - length d) s = d"

text \<open>\<open>s.lstrip()\<close>, \<open>s.rstrip()\<close>, \<open>s.strip()\<close>.\<close>

definition lstrip :: "string \<Rightarrow> string" where
  "lstrip s = dropWhile is_space s"

definition rstrip :: "string \<Rightarrow> string" where
  "rstrip s = rev (dropWhile is_space (rev s))"

definition strip :: "string \<Rightarrow> string" where
  "strip s = rstrip (lstrip s)"

text \<open>\<open>s.split(sep)\<close> for a separator of one character: never the empty list.\<close>

fun split_on :: "char \<Rightarrow> string \<Rightarrow> string list" where
  "split_on sep [] = [[]]"
| "split_on sep (c # cs) =
     (if c = sep then [] # split_on sep cs
      else (case split_on sep cs of
              [] \<Rightarrow> [[c]]
            | l # ls \<Rightarrow> (c # l) # ls))"

text \<open>\<open>sep.join(parts)\<close>.\<close>

fun join :: "string \<Rightarrow> string list \<Rightarrow> string" where
  "join sep [] = []"
| "join sep [p] = p"
| "join sep (p # q # ps) = p @ sep @ join sep (q # ps)"

text \<open>
  \<open>s.replace(old, new)\<close>: the occurrences of \<open>old\<close> are found from left to right and do
  not overlap. For the empty \<open>old\<close> Python puts \<open>new\<close> before every character and at
  the end.
\<close>

fun replace_scan :: "string \<Rightarrow> string \<Rightarrow> string \<Rightarrow> string" where
  "replace_scan old new [] = []"
| "replace_scan old new (c # cs) =
     (if old \<noteq> [] \<and> take (length old) (c # cs) = old
      then new @ replace_scan old new (drop (length old) (c # cs))
      else c # replace_scan old new cs)"

definition replace :: "string \<Rightarrow> string \<Rightarrow> string \<Rightarrow> string" where
  "replace s old new =
     (if old = [] then concat (map (\<lambda>c. new @ [c]) s) @ new
      else replace_scan old new s)"

text \<open>\<open>d in s\<close> for strings: \<open>d\<close> occurs in \<open>s\<close> as a substring.\<close>

fun contains :: "string \<Rightarrow> string \<Rightarrow> bool" where
  "contains [] d \<longleftrightarrow> d = []"
| "contains (c # cs) d \<longleftrightarrow> take (length d) (c # cs) = d \<or> contains cs d"

text \<open>\<open>s.lower()\<close> on a byte string: only the ASCII capitals change.\<close>

definition lower_char :: "char \<Rightarrow> char" where
  "lower_char c =
     (if (65::nat) \<le> of_char c \<and> (of_char c :: nat) \<le> 90
      then char_of ((of_char c :: nat) + 32) else c)"

definition lower :: "string \<Rightarrow> string" where
  "lower s = map lower_char s"

text \<open>\<open>os.path.basename(p)\<close>: what follows the last slash.\<close>

definition basename :: "string \<Rightarrow> string" where
  "basename p = rev (takeWhile (\<lambda>c. c \<noteq> CHR ''/'') (rev p))"

section \<open>Data model\<close>

datatype error =
    IndexError
  | ValueError string
  | UnknownLocaleError string

text \<open>
  The renderer dictionary as \<open>parse\<close> reads it: \<open>renderer.get("multistart")\<close>,
  \<open>renderer.get("multiend")\<close> (\<open>None\<close> when the key is missing) and the truth value
  of \<open>renderer.get("strip_multi_delimiters")\<close>. The entry \<open>func\<close> is not read by
  \<open>parse\<close>.
\<close>

record renderer =
  multistart :: "string option"
  multiend :: "string option"
  strip_multi_delimiters :: bool

text \<open>
  \<open>prepare_renderer\<close> builds a dictionary with the keys \<open>func\<close>, \<open>multistart\<close> and
  \<open>multiend\<close> only, the delimiters being those of the markdown flavour: the key
  \<open>strip_multi_delimiters\<close> is missing from it.
\<close>

definition default_renderer :: renderer where
  "default_renderer =
     \<lparr>multistart = Some ''```'', multiend = Some ''```'', strip_multi_delimiters = False\<rparr>"

text \<open>
  A section dictionary: \<open>"text"\<close> is set by \<open>parse\<close>; \<open>"html"\<close> and \<open>"num"\<close> are added by
  \<open>highlight\<close> and are missing before.
\<close>

record pycco_section =
  sec_text :: string
  sec_html :: "string option"
  sec_num :: "nat option"

record document =
  title :: string
  sections :: "pycco_section list"
  language :: string

record merged_section =
  m_num :: nat
  source_html :: string
  translation_html :: string

record merged_document =
  source_title :: string
  translation_title :: string
  source_language :: string
  translation_language :: string
  merged_sections :: "merged_section list"

section \<open>merge_docs\<close>

text \<open>\<open>get_html = lambda section: (section or {}).get('html', '')\<close>\<close>

definition get_html :: "pycco_section option \<Rightarrow> string" where
  "get_html section =
     (case section of
        None \<Rightarrow> []
      | Some s \<Rightarrow> (case sec_html s of None \<Rightarrow> [] | Some h \<Rightarrow> h))"

text \<open>\<open>itertools.izip_longest(xs, ys)\<close>: the shorter list is filled up with \<open>None\<close>.\<close>

fun izip_longest :: "'a list \<Rightarrow> 'b list \<Rightarrow> ('a option \<times> 'b option) list" where
  "izip_longest [] [] = []"
| "izip_longest (x # xs) [] = (Some x, None) # izip_longest xs []"
| "izip_longest [] (y # ys) = (None, Some y) # izip_longest [] ys"
| "izip_longest (x # xs) (y # ys) = (Some x, Some y) # izip_longest xs ys"

text \<open>\<open>enumerate\<close>, counting from \<open>i\<close>.\<close>

fun enumerate_from :: "nat \<Rightarrow> 'a list \<Rightarrow> (nat \<times> 'a) list" where
  "enumerate_from i [] = []"
| "enumerate_from i (x # xs) = (i, x) # enumerate_from (Suc i) xs"

definition merge_docs :: "document \<Rightarrow> document \<Rightarrow> merged_document" where
  "merge_docs source_doc translation_doc =
     \<lparr>source_title = title source_doc,
      translation_title = title translation_doc,
      source_language = language source_doc,
      translation_language = language translation_doc,
      merged_sections =
        map (\<lambda>(i, (source_section, translation_section)).
               \<lparr>m_num = i,
                source_html = get_html source_section,
                translation_html = get_html translation_section\<rparr>)
            (enumerate_from 0 (izip_longest (sections source_doc) (sections translation_doc)))\<rparr>"

section \<open>get_language\<close>

text \<open>
  \<open>re.match(r'(.*)(\..+)', name)\<close>, group 1. A dot of the pattern matches any
  character but the line feed, so the match lies in the first line of \<open>name\<close>; the
  first group is greedy, so it ends at the last dot that still has a character after it.
  \<open>None\<close> when there is no such dot.
\<close>

definition match_stem :: "string \<Rightarrow> string option" where
  "match_stem name =
     (let l = takeWhile (\<lambda>c. c \<noteq> nl) name;
          b = butlast l
      in if CHR ''.'' \<in> set b
         then Some (rev (tl (dropWhile (\<lambda>c. c \<noteq> CHR ''.'') (rev b))))
         else None)"

text \<open>
  \<open>Locale.parse\<close> belongs to the Babel library, so it is a parameter \<open>locale_parse\<close>:
  \<open>Inl e\<close> when it raises \<open>e\<close>, \<open>Inr None\<close> when it returns a value that is false
  in a condition, \<open>Inr (Some l)\<close> when it returns a locale whose \<open>language\<close> is \<open>l\<close>.
  The argument \<open>code\<close> is not read.
\<close>

definition get_language ::
  "(string \<Rightarrow> error + string option) \<Rightarrow> string \<Rightarrow> string \<Rightarrow> string option \<Rightarrow> error + string" where
  "get_language locale_parse source code forced =
     (case forced of
        Some lang \<Rightarrow>
          (case locale_parse lang of
             Inl e \<Rightarrow> Inl e
           | Inr (Some l) \<Rightarrow> Inr l
           | Inr None \<Rightarrow> Inl (ValueError (''Unknown forced language: '' @ lang)))
      | None \<Rightarrow>
          (case match_stem (basename source) of
             Some stem \<Rightarrow>
               (case locale_parse stem of
                  Inl e \<Rightarrow> Inl e
                | Inr (Some l) \<Rightarrow> Inr l
                | Inr None \<Rightarrow> Inl (ValueError ''Can't figure out the language!''))
           | None \<Rightarrow> Inl (ValueError ''Can't figure out the language!'')))"

section \<open>parse\<close>

text \<open>
  \<open>all(multi_line_delimiters)\<close>: both delimiters are present and not empty. The
  result holds the two delimiters then.
\<close>

definition multi_line_delimiters :: "renderer \<Rightarrow> (string \<times> string) option" where
  "multi_line_delimiters r =
     (case (multistart r, multiend r) of
        (Some ms, Some me) \<Rightarrow> if ms \<noteq> [] \<and> me \<noteq> [] then Some (ms, me) else None
      | _ \<Rightarrow> None)"

text \<open>
  \<open>any([line.lstrip().startswith(delim) or line.rstrip().endswith(delim)
         for delim in multi_line_delimiters])\<close>
\<close>

definition delimiter_line :: "string \<Rightarrow> string \<Rightarrow> string \<Rightarrow> bool" where
  "delimiter_line ms me line \<longleftrightarrow>
     (startswith (lstrip line) ms \<or> endswith (rstrip line) ms) \<or>
     (startswith (lstrip line) me \<or> endswith (rstrip line) me)"

text \<open>
  The two \<open>replace\<close> calls, made only when \<open>renderer.get("strip_multi_delimiters")\<close>
  is true.
\<close>

definition strip_delimiters :: "renderer \<Rightarrow> string \<Rightarrow> string \<Rightarrow> string \<Rightarrow> string" where
  "strip_delimiters r ms me line =
     (if strip_multi_delimiters r then replace (replace line ms []) me [] else line)"

text \<open>\<open>save(chunk)\<close>: an empty chunk is not appended.\<close>

definition save :: "string \<Rightarrow> pycco_section list \<Rightarrow> pycco_section list" where
  "save chunk secs =
     (if chunk \<noteq> [] then secs @ [\<lparr>sec_text = chunk, sec_html = None, sec_num = None\<rparr>]
      else secs)"

text \<open>
  The body of the loop on a line whose test for a delimiter succeeded. The state is
  \<open>(multi_line, chunk, sections)\<close>.
\<close>

definition delimiter_step ::
  "renderer \<Rightarrow> string \<Rightarrow> string \<Rightarrow> bool \<times> string \<times> pycco_section list \<Rightarrow> string
     \<Rightarrow> bool \<times> string \<times> pycco_section list" where
  "delimiter_step r ms me st line0 =
     (case st of (multi_line0, chunk0, secs0) \<Rightarrow>
        let multi_line1 = (if \<not> multi_line0 then True else False);
            multi_line =
              (if multi_line1 \<and> endswith (strip line0) me \<and> length (strip line0) > length me
               then False else multi_line1);
            line = strip_delimiters r ms me line0;
            chunk1 = (if \<not> multi_line then chunk0 @ nl # line else chunk0);
            secs = (if chunk1 \<noteq> [] then save chunk1 secs0 else secs0);
            chunk2 = (if chunk1 \<noteq> [] then [] else chunk1);
            chunk = (if multi_line then chunk2 @ line else chunk2)
        in (multi_line, chunk, secs))"

text \<open>The body of the loop of \<open>parse\<close>.\<close>

definition parse_line ::
  "renderer \<Rightarrow> bool \<times> string \<times> pycco_section list \<Rightarrow> string
     \<Rightarrow> bool \<times> string \<times> pycco_section list" where
  "parse_line r st line =
     (case st of (multi_line, chunk, secs) \<Rightarrow>
        (case multi_line_delimiters r of
           Some (ms, me) \<Rightarrow>
             if delimiter_line ms me line then delimiter_step r ms me st line
             else if multi_line then (multi_line, chunk @ nl # line, secs)
             else if line \<noteq> [] then (multi_line, chunk @ nl # line, secs)
             else (multi_line, [], save chunk secs)
         | None \<Rightarrow>
             if multi_line then (multi_line, chunk @ nl # line, secs)
             else if line \<noteq> [] then (multi_line, chunk @ nl # line, secs)
             else (multi_line, [], save chunk secs)))"

text \<open>
  The lines the loop walks: \<open>text.split("\n")\<close> without the line of the interpreter
  directive and without the title. \<open>lines.pop(0)\<close> raises \<open>IndexError\<close> on the empty
  list.
\<close>

definition title_and_lines :: "string \<Rightarrow> error + string \<times> string list" where
  "title_and_lines text =
     (case split_on nl text of
        [] \<Rightarrow> Inl IndexError
      | l0 # ls \<Rightarrow>
          (case (if startswith l0 ''#!'' then ls else l0 # ls) of
             [] \<Rightarrow> Inl IndexError
           | t # rest \<Rightarrow> Inr (t, rest)))"

text \<open>Lines 144 to 200 of \<open>parse\<close>: the title and the sections.\<close>

definition split_sections :: "renderer \<Rightarrow> string \<Rightarrow> error + string \<times> pycco_section list" where
  "split_sections r text =
     (case title_and_lines text of
        Inl e \<Rightarrow> Inl e
      | Inr (t, rest) \<Rightarrow>
          (case foldl (parse_line r) (False, [], []) rest of
             (multi_line, chunk, secs) \<Rightarrow> Inr (t, save chunk secs)))"

definition parse ::
  "(string \<Rightarrow> error + string option) \<Rightarrow> string \<Rightarrow> string \<Rightarrow> string option \<Rightarrow> renderer
     \<Rightarrow> error + document" where
  "parse locale_parse source text forced r =
     (case get_language locale_parse source text forced of
        Inl e \<Rightarrow> Inl e
      | Inr lang \<Rightarrow>
          (case split_sections r text of
             Inl e \<Rightarrow> Inl e
           | Inr (t, secs) \<Rightarrow> Inr \<lparr>title = t, sections = secs, language = lang\<rparr>))"

section \<open>preprocess\<close>

text \<open>\<open>"-".join(name.lower().strip().split(" "))\<close>\<close>

definition sanitize_section_name :: "string \<Rightarrow> string" where
  "sanitize_section_name name = join ''-'' (split_on (CHR '' '') (strip (lower name)))"

text \<open>
  \<open>replace_section_name\<close> on the groups 1 and 2 of a match; \<open>re.sub('=', '#', g1)\<close>
  turns every equals sign into a hash.
\<close>

definition replace_section_name :: "string \<Rightarrow> string \<Rightarrow> string" where
  "replace_section_name g1 g2 =
     map (\<lambda>c. if c = CHR ''='' then CHR ''#'' else c) g1
     @ '' <span id='' @ [dquote] @ sanitize_section_name g2 @ [dquote]
     @ '' href='' @ [dquote] @ sanitize_section_name g2 @ [dquote]
     @ ''>'' @ g2 @ ''</span>''"

text \<open>
  The match of \<open>^([=]+)([^=]+)[=]*\s*$\<close> in \<open>comment\<close>. The pattern is compiled
  without the MULTILINE flag, so \<open>^\<close> matches at the start of the text only and \<open>$\<close> at
  its end (or before a line feed that ends it, which the greedy \<open>\s*\<close> takes first).
  The class \<open>[^=]\<close> holds the line feed. Each of the four greedy parts takes its
  whole run: giving back a character of a run leaves a character that the next part of
  the pattern cannot take. So the pattern matches when the text is a run of equals
  signs, a run of other characters, a run of equals signs and white space up to its end;
  the match is then the whole text.
\<close>

definition match_section_name :: "string \<Rightarrow> (string \<times> string) option" where
  "match_section_name comment =
     (let g1 = takeWhile (\<lambda>c. c = CHR ''='') comment;
          r1 = dropWhile (\<lambda>c. c = CHR ''='') comment;
          g2 = takeWhile (\<lambda>c. c \<noteq> CHR ''='') r1;
          r2 = dropWhile (\<lambda>c. c \<noteq> CHR ''='') r1;
          r3 = dropWhile (\<lambda>c. c = CHR ''='') r2
      in if g1 \<noteq> [] \<and> g2 \<noteq> [] \<and> list_all is_space r3 then Some (g1, g2) else None)"

text \<open>\<open>re.sub('^([=]+)([^=]+)[=]*\s*$', replace_section_name, comment)\<close>\<close>

definition sub_section_name :: "string \<Rightarrow> string" where
  "sub_section_name comment =
     (case match_section_name comment of
        Some (g1, g2) \<Rightarrow> replace_section_name g1 g2
      | None \<Rightarrow> comment)"

text \<open>
  \<open>replace_crossref\<close> on group 1 of a match. Unpacking \<open>match.group(1).split('#')\<close>
  into two names raises \<open>ValueError\<close> when the group holds more than one hash. The
  resolver \<open>destination\<close> is a parameter of \<open>preprocess\<close>; it is taken to return
  a path for every name.
\<close>

definition replace_crossref :: "(string \<Rightarrow> string) \<Rightarrow> string \<Rightarrow> error + string" where
  "replace_crossref destination g =
     (if CHR ''#'' \<in> set g
      then (case split_on (CHR ''#'') g of
              [name, anchor] \<Rightarrow>
                Inr ('' ['' @ name @ '']('' @ basename (destination name) @ ''#'' @ anchor @ '')'')
            | _ \<Rightarrow> Inl (ValueError ''too many values to unpack''))
      else Inr ('' ['' @ g @ '']('' @ basename (destination g) @ '')''))"

text \<open>
  The lazy group \<open>(.+?)\<close> followed by \<open>\]\]\<close>, on the text after the opening brackets:
  the shortest run of at least one character, none of them a line feed, that two closing
  brackets follow.
\<close>

fun lazy_group :: "string \<Rightarrow> string option" where
  "lazy_group [] = None"
| "lazy_group (c # cs) =
     (if c = nl then None
      else if take 2 cs = '']]'' then Some [c]
      else map_option ((#) c) (lazy_group cs))"

text \<open>
  The pattern \<open>[^`]\[\[(.+?)\]\]\<close> tried at the start of \<open>s\<close>: one character that
  is not a backtick, two opening brackets, the lazy group, two closing brackets. The
  result is group 1.
\<close>

definition crossref_match :: "string \<Rightarrow> string option" where
  "crossref_match s =
     (case s of
        c # b1 # b2 # rest \<Rightarrow>
          if c \<noteq> backtick \<and> b1 = CHR ''['' \<and> b2 = CHR ''['' then lazy_group rest else None
      | _ \<Rightarrow> None)"

text \<open>
  \<open>re.sub\<close> walks the text from left to right: where the pattern matches, the match is
  replaced and the walk goes on behind it; elsewhere one character is copied. A match
  with group \<open>g\<close> is the character before the brackets, the four brackets and \<open>g\<close>.
\<close>

datatype piece = Keep char | Crossref char string

fun crossref_scan :: "string \<Rightarrow> piece list" where
  "crossref_scan [] = []"
| "crossref_scan (c # cs) =
     (case crossref_match (c # cs) of
        Some g \<Rightarrow> Crossref c g # crossref_scan (drop (length g + 4) cs)
      | None \<Rightarrow> Keep c # crossref_scan cs)"

text \<open>The text a piece was read from.\<close>

fun piece_source :: "piece \<Rightarrow> string" where
  "piece_source (Keep c) = [c]"
| "piece_source (Crossref c g) = c # ''[['' @ g @ '']]''"

text \<open>The text written for the pieces; the first replacement that raises ends the call.\<close>

fun render_pieces :: "(string \<Rightarrow> string) \<Rightarrow> piece list \<Rightarrow> error + string" where
  "render_pieces destination [] = Inr []"
| "render_pieces destination (Keep c # ps) =
     (case render_pieces destination ps of Inl e \<Rightarrow> Inl e | Inr out \<Rightarrow> Inr (c # out))"
| "render_pieces destination (Crossref c g # ps) =
     (case replace_crossref destination g of
        Inl e \<Rightarrow> Inl e
      | Inr link \<Rightarrow>
          (case render_pieces destination ps of Inl e \<Rightarrow> Inl e | Inr out \<Rightarrow> Inr (link @ out)))"

text \<open>\<open>re.sub('[^`]\[\[(.+?)\]\]', replace_crossref, comment)\<close>\<close>

definition sub_crossref :: "(string \<Rightarrow> string) \<Rightarrow> string \<Rightarrow> error + string" where
  "sub_crossref destination comment = render_pieces destination (crossref_scan comment)"

definition preprocess :: "string \<Rightarrow> nat \<Rightarrow> (string \<Rightarrow> string) \<Rightarrow> error + string" where
  "preprocess comment section_nr destination =
     sub_crossref destination (sub_section_name comment)"

section \<open>Example inputs\<close>

definition rendered :: "string \<Rightarrow> string \<Rightarrow> nat \<Rightarrow> pycco_section" where
  "rendered t h n = \<lparr>sec_text = t, sec_html = Some h, sec_num = Some n\<rparr>"

definition example_source_doc :: document where
  "example_source_doc =
     \<lparr>title = ''Guide'',
      sections =
        [rendered ''a'' ''<p>a</p>'' 0, rendered ''b'' ''<p>b</p>'' 1, rendered ''c'' ''<p>c</p>'' 2],
      language = ''en''\<rparr>"

definition example_translation_doc :: document where
  "example_translation_doc =
     \<lparr>title = ''Anleitung'', sections = [rendered ''x'' ''<p>x</p>'' 0], language = ''de''\<rparr>"

text \<open>
  A stand-in for \<open>Locale.parse\<close> that knows two identifiers and raises for any other.
\<close>

definition example_locale_parse :: "string \<Rightarrow> error + string option" where
  "example_locale_parse identifier =
     (if identifier = ''en'' then Inr (Some ''en'')
      else if identifier = ''de_DE'' then Inr (Some ''de'')
      else Inl (UnknownLocaleError identifier))"

text \<open>The markdown delimiters with \<open>strip_multi_delimiters\<close> set by the caller.\<close>

definition stripping_renderer :: renderer where
  "stripping_renderer =
     \<lparr>multistart = Some ''```'', multiend = Some ''```'', strip_multi_delimiters = True\<rparr>"

text \<open>A destination resolver: \<open>helpers\<close> is written to \<open>out/helpers.html\<close>.\<close>

definition example_destination :: "string \<Rightarrow> string" where
  "example_destination name = ''out/'' @ name @ ''.html''"

section \<open>Notions used to state the properties\<close>

text \<open>
  What \<open>parse\<close> appends to the chunk for a line: the line itself, or the line without
  the delimiters when it is a delimiter line and the renderer asks for stripping.
\<close>

definition buffered_line :: "renderer \<Rightarrow> string \<Rightarrow> string" where
  "buffered_line r line =
     (case multi_line_delimiters r of
        Some (ms, me) \<Rightarrow> if delimiter_line ms me line then strip_delimiters r ms me line else line
      | None \<Rightarrow> line)"

text \<open>The characters of the sections and of the chunk, in order, without the line feeds.\<close>

definition flat :: "string \<times> pycco_section list \<Rightarrow> string" where
  "flat cs = filter (\<lambda>c. c \<noteq> nl) (concat (map sec_text (snd cs)) @ fst cs)"

section \<open>Properties of merge_docs\<close>

lemma length_izip_longest: "length (izip_longest xs ys) = max (length xs) (length ys)"
  by (induction xs ys rule: izip_longest.induct) simp_all

lemma nth_izip_longest:
  "i < max (length xs) (length ys) \<Longrightarrow>
   izip_longest xs ys ! i =
     (if i < length xs then Some (xs ! i) else None, if i < length ys then Some (ys ! i) else None)"
proof (induction xs ys arbitrary: i rule: izip_longest.induct)
  case 1
  then show ?case by simp
next
  case (2 x xs)
  then show ?case by (cases i) simp_all
next
  case (3 y ys)
  then show ?case by (cases i) simp_all
next
  case (4 x xs y ys)
  then show ?case by (cases i) simp_all
qed

lemma length_enumerate_from: "length (enumerate_from k xs) = length xs"
  by (induction xs arbitrary: k) simp_all

lemma nth_enumerate_from: "i < length xs \<Longrightarrow> enumerate_from k xs ! i = (k + i, xs ! i)"
proof (induction xs arbitrary: k i)
  case Nil
  then show ?case by simp
next
  case (Cons x xs)
  then show ?case by (cases i) simp_all
qed

text \<open>
  Claim C7. The merged list is as long as the longer of the two section lists. Its
  \<open>i\<close>-th entry has the number \<open>i\<close>, the html of the \<open>i\<close>-th section of the source as
  \<open>source_html\<close> and the html of the \<open>i\<close>-th section of the translation as
  \<open>translation_html\<close>, the empty string standing for a section that is missing or has
  no html. So no section is dropped and none changes its place.
\<close>

theorem merge_docs_sections:
  "length (merged_sections (merge_docs A B)) = max (length (sections A)) (length (sections B)) \<and>
   (\<forall>i < max (length (sections A)) (length (sections B)).
      merged_sections (merge_docs A B) ! i =
        \<lparr>m_num = i,
         source_html =
           (if i < length (sections A)
            then (case sec_html (sections A ! i) of None \<Rightarrow> [] | Some h \<Rightarrow> h) else []),
         translation_html =
           (if i < length (sections B)
            then (case sec_html (sections B ! i) of None \<Rightarrow> [] | Some h \<Rightarrow> h) else [])\<rparr>)"
  by (simp add: merge_docs_def length_enumerate_from length_izip_longest nth_enumerate_from
      nth_izip_longest get_html_def)

text \<open>
  A source of three sections merged with a translation of one section: three merged
  sections, the second and the third with an empty \<open>translation_html\<close>.
\<close>

theorem merge_docs_sections_witness:
  "length (merged_sections (merge_docs example_source_doc example_translation_doc)) = 3 \<and>
   merged_sections (merge_docs example_source_doc example_translation_doc) ! 1 =
     \<lparr>m_num = 1, source_html = ''<p>b</p>'', translation_html = []\<rparr> \<and>
   merged_sections (merge_docs example_source_doc example_translation_doc) ! 2 =
     \<lparr>m_num = 2, source_html = ''<p>c</p>'', translation_html = []\<rparr>"
  using merge_docs_sections [of example_source_doc example_translation_doc]
  by (simp add: example_source_doc_def example_translation_doc_def rendered_def)

section \<open>Properties of the string operations\<close>

lemma split_on_not_Nil: "split_on sep s \<noteq> []"
  by (induction s) (auto split: list.splits)

lemma split_on_no_sep: "sep \<notin> set s \<Longrightarrow> split_on sep s = [s]"
  by (induction s) auto

lemma split_on_sep: "sep \<in> set s \<Longrightarrow> \<exists>a b bs. split_on sep s = a # b # bs"
proof (induction s)
  case Nil
  then show ?case by simp
next
  case (Cons c cs)
  show ?case
  proof (cases "c = sep")
    case True
    then show ?thesis using split_on_not_Nil [of sep cs] by (cases "split_on sep cs") auto
  next
    case False
    with Cons obtain a b bs where "split_on sep cs = a # b # bs" by auto
    with False show ?thesis by simp
  qed
qed

lemma split_on_pieces: "l \<in> set (split_on sep s) \<Longrightarrow> sep \<notin> set l"
proof (induction s arbitrary: l)
  case Nil
  then show ?case by simp
next
  case (Cons c cs)
  show ?case
  proof (cases "c = sep")
    case True
    with Cons show ?thesis by auto
  next
    case False
    obtain a as where s: "split_on sep cs = a # as"
      using split_on_not_Nil [of sep cs] by (cases "split_on sep cs") auto
    with False Cons.prems have "l = c # a \<or> l \<in> set as" by auto
    then show ?thesis
    proof
      assume "l = c # a"
      moreover have "sep \<notin> set a" using Cons.IH [of a] s by simp
      ultimately show ?thesis using False by auto
    next
      assume "l \<in> set as"
      then show ?thesis using Cons.IH [of l] s by simp
    qed
  qed
qed

lemma split_on_replicate: "split_on sep (replicate n sep) = replicate (Suc n) []"
  by (induction n) simp_all

lemma only_nl_replicate: "set text \<subseteq> {nl} \<Longrightarrow> text = replicate (length text) nl"
  by (induction "text") auto

lemma replace_scan_subset: "set (replace_scan old [] s) \<subseteq> set s"
proof (induction old "[] :: string" s rule: replace_scan.induct)
  case (1 old)
  then show ?case by simp
next
  case (2 old c cs)
  show ?case
  proof (cases "old \<noteq> [] \<and> take (length old) (c # cs) = old")
    case True
    then have "set (replace_scan old [] (c # cs)) = set (replace_scan old [] (drop (length old) (c # cs)))"
      by simp
    also have "\<dots> \<subseteq> set (drop (length old) (c # cs))" using 2(1) True by simp
    also have "\<dots> \<subseteq> set (c # cs)" by (rule set_drop_subset)
    finally show ?thesis .
  next
    case False
    then show ?thesis using 2(2) by auto
  qed
qed

lemma replace_no_nl: "old \<noteq> [] \<Longrightarrow> nl \<notin> set s \<Longrightarrow> nl \<notin> set (replace s old [])"
  using replace_scan_subset [of old s] by (auto simp add: replace_def)

lemma filter_no_nl: "nl \<notin> set s \<Longrightarrow> filter (\<lambda>c. c \<noteq> nl) s = s"
  by (induction s) auto

lemma contains_iff: "contains s d \<longleftrightarrow> (\<exists>u v. s = u @ d @ v)"
proof (induction s)
  case Nil
  then show ?case by auto
next
  case (Cons c cs)
  show ?case
  proof
    assume "contains (c # cs) d"
    then consider "take (length d) (c # cs) = d" | "contains cs d" by auto
    then show "\<exists>u v. c # cs = u @ d @ v"
    proof cases
      case 1
      then have "c # cs = [] @ d @ drop (length d) (c # cs)"
        by (metis append_Nil append_take_drop_id)
      then show ?thesis by blast
    next
      case 2
      then obtain u v where "cs = u @ d @ v" using Cons.IH by blast
      then have "c # cs = (c # u) @ d @ v" by simp
      then show ?thesis by blast
    qed
  next
    assume "\<exists>u v. c # cs = u @ d @ v"
    then obtain u v where uv: "c # cs = u @ d @ v" by blast
    show "contains (c # cs) d"
    proof (cases u)
      case Nil
      then have "take (length d) (c # cs) = d" using uv by simp
      then show ?thesis by simp
    next
      case (Cons a u')
      then have "cs = u' @ d @ v" using uv by simp
      then have "contains cs d" using Cons.IH by blast
      then show ?thesis by simp
    qed
  qed
qed

lemma contains_across_nl:
  assumes "d \<noteq> []" and "nl \<notin> set d" and "\<not> contains a d" and "\<not> contains b d"
  shows "\<not> contains (a @ nl # b) d"
proof
  assume "contains (a @ nl # b) d"
  then obtain u v where uv: "a @ nl # b = u @ d @ v" unfolding contains_iff by blast
  then have "a @ nl # b = u @ (d @ v)" by simp
  then obtain w where "(a = u @ w \<and> w @ nl # b = d @ v) \<or> (a @ w = u \<and> nl # b = w @ d @ v)"
    unfolding append_eq_append_conv2 by auto
  then show False
  proof
    assume h: "a = u @ w \<and> w @ nl # b = d @ v"
    then obtain x where "(w = d @ x \<and> x @ nl # b = v) \<or> (w @ x = d \<and> nl # b = x @ v)"
      unfolding append_eq_append_conv2 by auto
    then show False
    proof
      assume "w = d @ x \<and> x @ nl # b = v"
      then have "a = u @ d @ x" using h by simp
      then show False using assms(3) unfolding contains_iff by blast
    next
      assume k: "w @ x = d \<and> nl # b = x @ v"
      show False
      proof (cases x)
        case Nil
        then have "a = u @ d @ []" using h k by simp
        then show False using assms(3) unfolding contains_iff by blast
      next
        case (Cons y ys)
        then have "y = nl" using k by simp
        then have "nl \<in> set d" using k Cons by auto
        then show False using assms(2) by simp
      qed
    qed
  next
    assume h: "a @ w = u \<and> nl # b = w @ d @ v"
    show False
    proof (cases w)
      case Nil
      then have "nl # b = d @ v" using h by simp
      then have "hd d = nl" using assms(1) by (cases d) auto
      then show False using assms(1,2) by (cases d) auto
    next
      case (Cons y ys)
      then have "b = ys @ d @ v" using h by simp
      then show False using assms(4) unfolding contains_iff by blast
    qed
  qed
qed

lemma fence_scan_head:
  assumes "take 2 s \<noteq> ''``''"
  shows "take 2 (replace_scan ''```'' [] s) \<noteq> ''``''"
proof (cases s)
  case Nil
  then show ?thesis by simp
next
  case (Cons x t)
  show ?thesis
  proof (cases "x = backtick")
    case False
    then show ?thesis using Cons by auto
  next
    case True
    show ?thesis
    proof (cases t)
      case Nil
      then show ?thesis using Cons True by simp
    next
      case (Cons y t')
      then have "y \<noteq> backtick" using assms True \<open>s = x # t\<close> by auto
      then show ?thesis using Cons True \<open>s = x # t\<close> by auto
    qed
  qed
qed

lemma fence_scan_clean: "\<not> contains (replace_scan ''```'' [] s) ''```''"
proof (induction "''```''" "[] :: string" s rule: replace_scan.induct)
  case 1
  then show ?case by simp
next
  case (2 c cs)
  show ?case
  proof (cases "take (length ''```'') (c # cs) = ''```''")
    case True
    then have "\<not> contains (replace_scan ''```'' [] (drop (length ''```'') (c # cs))) ''```''"
      using 2(1) by blast
    moreover have "replace_scan ''```'' [] (c # cs) =
                     replace_scan ''```'' [] (drop (length ''```'') (c # cs))"
      using True by (subst replace_scan.simps) (simp only: if_True append_Nil simp_thms list.distinct)
    ultimately show ?thesis by simp
  next
    case False
    then have ih: "\<not> contains (replace_scan ''```'' [] cs) ''```''" using 2(2) by blast
    have step: "replace_scan ''```'' [] (c # cs) = c # replace_scan ''```'' [] cs"
      using False by (subst replace_scan.simps) (simp only: if_False simp_thms)
    have "take (length ''```'') (c # replace_scan ''```'' [] cs) \<noteq> ''```''"
    proof
      assume a: "take (length ''```'') (c # replace_scan ''```'' [] cs) = ''```''"
      then have c: "c = backtick" by simp
      from a have "take 2 (replace_scan ''```'' [] cs) = ''``''"
        by (simp add: numeral_2_eq_2)
      then have "take 2 cs = ''``''" using fence_scan_head [of cs] by blast
      then have "take (length ''```'') (c # cs) = ''```''" using c
        by (simp add: numeral_2_eq_2)
      then show False using False by simp
    qed
    then show ?thesis unfolding step using ih by simp
  qed
qed

lemma strip_fences_clean:
  "\<not> contains (replace (replace line ''```'' []) ''```'' []) ''```''"
  by (simp add: replace_def fence_scan_clean)

section \<open>Properties of parse\<close>

subsection \<open>The title and the lines\<close>

lemma title_and_lines_total:
  assumes "\<not> (startswith text ''#!'' \<and> nl \<notin> set text)"
  shows "\<exists>t rest. title_and_lines text = Inr (t, rest)"
proof (cases "nl \<in> set text")
  case True
  then obtain a b bs where "split_on nl text = a # b # bs"
    using split_on_sep by blast
  then show ?thesis by (simp add: title_and_lines_def)
next
  case False
  then have "split_on nl text = [text]" by (rule split_on_no_sep)
  moreover have "\<not> startswith text ''#!''" using assms False by simp
  ultimately show ?thesis by (simp add: title_and_lines_def)
qed

lemma title_and_lines_no_nl:
  assumes "title_and_lines text = Inr (t, rest)" and "l \<in> set rest"
  shows "nl \<notin> set l"
proof -
  have "l \<in> set (split_on nl text)"
    using assms by (auto simp add: title_and_lines_def split: list.splits if_splits)
  then show ?thesis by (rule split_on_pieces)
qed

subsection \<open>Invariants of the loop\<close>

lemma save_nonempty:
  "\<forall>s \<in> set secs. sec_text s \<noteq> [] \<Longrightarrow> \<forall>s \<in> set (save chunk secs). sec_text s \<noteq> []"
  by (simp add: save_def)

lemma parse_line_nonempty:
  assumes "\<forall>s \<in> set secs. sec_text s \<noteq> []"
    and "parse_line r (multi_line, chunk, secs) line = (multi_line', chunk', secs')"
  shows "\<forall>s \<in> set secs'. sec_text s \<noteq> []"
  using assms
  by (auto simp add: parse_line_def delimiter_step_def save_def Let_def
      split: option.splits if_splits)

lemma foldl_parse_line_nonempty:
  assumes "\<forall>s \<in> set secs. sec_text s \<noteq> []"
    and "foldl (parse_line r) (multi_line, chunk, secs) ls = (multi_line', chunk', secs')"
  shows "\<forall>s \<in> set secs'. sec_text s \<noteq> []"
  using assms
proof (induction ls arbitrary: multi_line chunk secs)
  case Nil
  then show ?case by simp
next
  case (Cons l ls)
  obtain m c s where st: "parse_line r (multi_line, chunk, secs) l = (m, c, s)"
    by (cases "parse_line r (multi_line, chunk, secs) l") auto
  have "\<forall>x \<in> set s. sec_text x \<noteq> []"
    using parse_line_nonempty [OF Cons.prems(1) st] .
  then show ?case using Cons.IH [of s m c] Cons.prems(2) st by simp
qed

lemma buffered_line_no_nl: "nl \<notin> set line \<Longrightarrow> nl \<notin> set (buffered_line r line)"
  by (auto simp add: buffered_line_def strip_delimiters_def multi_line_delimiters_def replace_no_nl
      split: option.splits if_splits)

lemma parse_line_flat:
  assumes "nl \<notin> set line"
    and "parse_line r (multi_line, chunk, secs) line = (multi_line', chunk', secs')"
  shows "flat (chunk', secs') = flat (chunk, secs) @ buffered_line r line"
proof -
  have b: "filter (\<lambda>c. c \<noteq> nl) (buffered_line r line) = buffered_line r line"
    using buffered_line_no_nl [OF assms(1)] by (rule filter_no_nl)
  have l: "filter (\<lambda>c. c \<noteq> nl) line = line"
    using assms(1) by (rule filter_no_nl)
  show ?thesis
    using assms(2) b l
    by (auto simp add: parse_line_def delimiter_step_def save_def Let_def flat_def buffered_line_def
        split: option.splits if_splits)
qed

lemma foldl_parse_line_flat:
  assumes "\<forall>l \<in> set ls. nl \<notin> set l"
    and "foldl (parse_line r) (multi_line, chunk, secs) ls = (multi_line', chunk', secs')"
  shows "flat (chunk', secs') = flat (chunk, secs) @ concat (map (buffered_line r) ls)"
  using assms
proof (induction ls arbitrary: multi_line chunk secs)
  case Nil
  then show ?case by simp
next
  case (Cons l ls)
  obtain m c s where st: "parse_line r (multi_line, chunk, secs) l = (m, c, s)"
    by (cases "parse_line r (multi_line, chunk, secs) l") auto
  have "nl \<notin> set l" using Cons.prems(1) by simp
  then have "flat (c, s) = flat (chunk, secs) @ buffered_line r l"
    using st by (rule parse_line_flat)
  moreover have "flat (chunk', secs') = flat (c, s) @ concat (map (buffered_line r) ls)"
    using Cons.IH [of m c s] Cons.prems st by simp
  ultimately show ?case by simp
qed

lemma flat_save: "flat ([], save chunk secs) = flat (chunk, secs)"
  by (simp add: flat_def save_def)

lemma delimiter_line_empty: "ms \<noteq> [] \<Longrightarrow> me \<noteq> [] \<Longrightarrow> \<not> delimiter_line ms me []"
  by (auto simp add: delimiter_line_def startswith_def endswith_def lstrip_def rstrip_def)

lemma parse_line_blank: "parse_line r (False, [], []) [] = (False, [], [])"
  by (auto simp add: parse_line_def save_def multi_line_delimiters_def delimiter_line_empty
      split: option.splits if_splits)

lemma foldl_parse_line_blank: "foldl (parse_line r) (False, [], []) (replicate n []) = (False, [], [])"
  by (induction n) (simp_all add: parse_line_blank)

lemma split_sections_blank:
  assumes "set text \<subseteq> {nl}"
  shows "split_sections r text = Inr ([], [])"
proof -
  have "text = replicate (length text) nl" using assms by (rule only_nl_replicate)
  then have "split_on nl text = replicate (Suc (length text)) []"
    using split_on_replicate [of nl "length text"] by simp
  then have "title_and_lines text = Inr ([], replicate (length text) [])"
    by (simp add: title_and_lines_def startswith_def)
  then show ?thesis
    by (simp add: split_sections_def foldl_parse_line_blank save_def)
qed

lemma parse_line_clean:
  assumes "multi_line_delimiters r = Some (''```'', ''```'')"
    and "strip_multi_delimiters r"
    and "\<not> delimiter_line ''```'' ''```'' line \<longrightarrow> \<not> contains line ''```''"
    and "\<forall>s \<in> set secs. \<not> contains (sec_text s) ''```''"
    and "\<not> contains chunk ''```''"
    and "parse_line r (multi_line, chunk, secs) line = (multi_line', chunk', secs')"
  shows "(\<forall>s \<in> set secs'. \<not> contains (sec_text s) ''```'') \<and> \<not> contains chunk' ''```''"
proof -
  have nl: "\<And>a b. \<not> contains a ''```'' \<Longrightarrow> \<not> contains b ''```'' \<Longrightarrow> \<not> contains (a @ nl # b) ''```''"
    by (rule contains_across_nl) simp_all
  have e: "\<not> contains [] ''```''" by simp
  show ?thesis
  proof (cases "delimiter_line ''```'' ''```'' line")
    case True
    have c: "\<not> contains (strip_delimiters r ''```'' ''```'' line) ''```''"
      using assms(2) by (simp only: strip_delimiters_def if_True strip_fences_clean not_False_eq_True)
    have n: "\<not> contains (chunk @ nl # strip_delimiters r ''```'' ''```'' line) ''```''"
      using assms(5) c by (rule nl)
    show ?thesis
      using assms(1,4,5,6) True c n e
      by (auto simp add: parse_line_def delimiter_step_def save_def Let_def
          simp del: contains.simps split: if_splits)
  next
    case False
    then have c: "\<not> contains line ''```''" using assms(3) by simp
    have n: "\<not> contains (chunk @ nl # line) ''```''"
      using assms(5) c by (rule nl)
    show ?thesis
      using assms(1,4,5,6) False c n e
      by (auto simp add: parse_line_def save_def simp del: contains.simps split: if_splits)
  qed
qed

lemma foldl_parse_line_clean:
  assumes "multi_line_delimiters r = Some (''```'', ''```'')"
    and "strip_multi_delimiters r"
    and "\<forall>l \<in> set ls. \<not> delimiter_line ''```'' ''```'' l \<longrightarrow> \<not> contains l ''```''"
    and "\<forall>s \<in> set secs. \<not> contains (sec_text s) ''```''"
    and "\<not> contains chunk ''```''"
    and "foldl (parse_line r) (multi_line, chunk, secs) ls = (multi_line', chunk', secs')"
  shows "(\<forall>s \<in> set secs'. \<not> contains (sec_text s) ''```'') \<and> \<not> contains chunk' ''```''"
  using assms(3-6)
proof (induction ls arbitrary: multi_line chunk secs)
  case Nil
  then show ?case by simp
next
  case (Cons l ls)
  obtain m c s where st: "parse_line r (multi_line, chunk, secs) l = (m, c, s)"
    by (cases "parse_line r (multi_line, chunk, secs) l") auto
  have l: "\<not> delimiter_line ''```'' ''```'' l \<longrightarrow> \<not> contains l ''```''"
    using Cons.prems(1) by simp
  have inv: "(\<forall>x \<in> set s. \<not> contains (sec_text x) ''```'') \<and> \<not> contains c ''```''"
    using parse_line_clean [OF assms(1,2) l Cons.prems(2,3) st] .
  have rest: "\<forall>l \<in> set ls. \<not> delimiter_line ''```'' ''```'' l \<longrightarrow> \<not> contains l ''```''"
    using Cons.prems(1) by simp
  have f: "foldl (parse_line r) (m, c, s) ls = (multi_line', chunk', secs')"
    using Cons.prems(4) st by simp
  show ?case using Cons.IH [OF rest _ _ f] inv by blast
qed

subsection \<open>Delimiters in the sections\<close>

text \<open>
  Claim C1, as stated, fails. With the renderer that \<open>prepare_renderer\<close> builds the
  delimiters are not stripped: the section of a fenced block holds both of them.
\<close>

theorem unstripped_delimiters_counterexample:
  "parse example_locale_parse ''en.md'' (''Title'' @ nl # ''```python'' @ nl # ''x = 1'' @ nl # ''```'')
     None default_renderer =
     Inr \<lparr>title = ''Title'',
          sections = [\<lparr>sec_text = ''```python'' @ nl # ''x = 1'' @ nl # ''```'',
                       sec_html = None, sec_num = None\<rparr>],
          language = ''en''\<rparr> \<and>
   contains (''```python'' @ nl # ''x = 1'' @ nl # ''```'') ''```''"
  by (simp add: parse_def split_sections_def title_and_lines_def
        get_language_def match_stem_def basename_def example_locale_parse_def
        parse_line_def delimiter_step_def save_def Let_def delimiter_line_def
        startswith_def endswith_def strip_def lstrip_def rstrip_def is_space_def
        strip_delimiters_def default_renderer_def multi_line_delimiters_def)

text \<open>
  Claim C1, amended. When the renderer sets \<open>strip_multi_delimiters\<close> and has the
  markdown delimiters, the delimiter is removed from every delimiter line before the
  line enters the chunk; if no other line after the title holds the delimiter, no
  section holds it.
\<close>

theorem stripped_sections_without_delimiter:
  assumes "multistart r = Some ''```''" and "multiend r = Some ''```''"
    and "strip_multi_delimiters r"
    and "parse locale_parse source input forced r = Inr doc"
    and "title_and_lines input = Inr (t, rest)"
    and "\<forall>l \<in> set rest. \<not> delimiter_line ''```'' ''```'' l \<longrightarrow> \<not> contains l ''```''"
  shows "\<forall>s \<in> set (sections doc). \<not> contains (sec_text s) ''```''"
proof -
  have d: "multi_line_delimiters r = Some (''```'', ''```'')"
    using assms(1,2) by (simp add: multi_line_delimiters_def)
  obtain multi_line chunk secs
    where st: "foldl (parse_line r) (False, [], []) rest = (multi_line, chunk, secs)"
    by (cases "foldl (parse_line r) (False, [], []) rest") auto
  have doc: "sections doc = save chunk secs"
    using assms(4,5) st by (auto simp add: parse_def split_sections_def split: sum.splits)
  have "(\<forall>s \<in> set secs. \<not> contains (sec_text s) ''```'') \<and> \<not> contains chunk ''```''"
    using foldl_parse_line_clean [OF d assms(3) assms(6) _ _ st] by simp
  then show ?thesis unfolding doc by (simp add: save_def del: contains.simps)
qed

theorem stripped_sections_without_delimiter_witness:
  "parse example_locale_parse ''en.md'' (''Title'' @ nl # ''```python'' @ nl # ''x = 1'' @ nl # ''```'')
     None stripping_renderer =
     Inr \<lparr>title = ''Title'',
          sections = [\<lparr>sec_text = ''python'' @ nl # ''x = 1'' @ [nl], sec_html = None, sec_num = None\<rparr>],
          language = ''en''\<rparr> \<and>
   \<not> contains (''python'' @ nl # ''x = 1'' @ [nl]) ''```''"
proof -
  let ?input = "''Title'' @ nl # ''```python'' @ nl # ''x = 1'' @ nl # ''```''"
  let ?doc = "\<lparr>title = ''Title'',
          sections = [\<lparr>sec_text = ''python'' @ nl # ''x = 1'' @ [nl], sec_html = None, sec_num = None\<rparr>],
          language = ''en''\<rparr>"
  have a: "multistart stripping_renderer = Some ''```''" by (simp add: stripping_renderer_def)
  have b: "multiend stripping_renderer = Some ''```''" by (simp add: stripping_renderer_def)
  have c: "strip_multi_delimiters stripping_renderer" by (simp add: stripping_renderer_def)
  have t: "title_and_lines ?input = Inr (''Title'', [''```python'', ''x = 1'', ''```''])"
    by (simp add: title_and_lines_def startswith_def)
  have f: "foldl (parse_line stripping_renderer) (False, [], []) [''```python'', ''x = 1'', ''```''] =
             (False, [], [\<lparr>sec_text = ''python'' @ nl # ''x = 1'' @ [nl], sec_html = None, sec_num = None\<rparr>])"
    by (simp add: parse_line_def delimiter_step_def save_def Let_def delimiter_line_def
        startswith_def endswith_def strip_def lstrip_def rstrip_def is_space_def
        strip_delimiters_def stripping_renderer_def multi_line_delimiters_def replace_def)
  have p: "parse example_locale_parse ''en.md'' ?input None stripping_renderer = Inr ?doc"
    unfolding parse_def split_sections_def t
    by (simp add: f get_language_def match_stem_def basename_def example_locale_parse_def save_def
        del: foldl_Cons foldl_Nil)
  have l: "\<forall>l \<in> set [''```python'', ''x = 1'', ''```''].
             \<not> delimiter_line ''```'' ''```'' l \<longrightarrow> \<not> contains l ''```''"
    by (simp add: delimiter_line_def startswith_def lstrip_def is_space_def)
  show ?thesis
    using stripped_sections_without_delimiter [OF a b c p t l] p by simp
qed

subsection \<open>A block comment that opens and closes on one line\<close>

text \<open>
  Claim C2. Outside a block comment, a delimiter line whose stripped form ends with the
  end delimiter and is longer than it leaves the flag off, appends the line to the
  chunk and saves the chunk as one section, leaving the chunk empty. The next line is
  treated as a line outside a block comment: when it is no delimiter line it starts a
  new chunk, or, when it is empty, it only separates sections.
\<close>

theorem self_closing_block_line:
  assumes "multi_line_delimiters r = Some (ms, me)"
    and "delimiter_line ms me line"
    and "endswith (strip line) me"
    and "length me < length (strip line)"
    and "\<not> delimiter_line ms me next_line"
  shows "parse_line r (False, chunk, secs) line =
           (False, [],
            secs @ [\<lparr>sec_text = chunk @ nl # strip_delimiters r ms me line,
                     sec_html = None, sec_num = None\<rparr>]) \<and>
         foldl (parse_line r) (False, chunk, secs) [line, next_line] =
           (False, if next_line = [] then [] else nl # next_line,
            secs @ [\<lparr>sec_text = chunk @ nl # strip_delimiters r ms me line,
                     sec_html = None, sec_num = None\<rparr>])"
  using assms by (simp add: parse_line_def delimiter_step_def save_def Let_def)

theorem self_closing_block_line_witness:
  "parse_line default_renderer (False, [], []) ''```inline code```'' =
     (False, [], [\<lparr>sec_text = nl # ''```inline code```'', sec_html = None, sec_num = None\<rparr>]) \<and>
   foldl (parse_line default_renderer) (False, [], []) [''```inline code```'', ''next''] =
     (False, nl # ''next'',
      [\<lparr>sec_text = nl # ''```inline code```'', sec_html = None, sec_num = None\<rparr>])"
proof -
  have d: "multi_line_delimiters default_renderer = Some (''```'', ''```'')"
    by (simp add: multi_line_delimiters_def default_renderer_def)
  have l: "delimiter_line ''```'' ''```'' ''```inline code```''"
    by (simp add: delimiter_line_def startswith_def lstrip_def is_space_def)
  have e: "endswith (strip ''```inline code```'') ''```''"
    by (simp add: endswith_def strip_def lstrip_def rstrip_def is_space_def)
  have n: "length ''```'' < length (strip ''```inline code```'')"
    by (simp add: strip_def lstrip_def rstrip_def is_space_def)
  have x: "\<not> delimiter_line ''```'' ''```'' ''next''"
    by (simp add: delimiter_line_def startswith_def endswith_def lstrip_def rstrip_def is_space_def)
  show ?thesis
    using self_closing_block_line [OF d l e n x, of "[]" "[]"]
    by (simp add: strip_delimiters_def default_renderer_def del: foldl_Cons foldl_Nil)
qed

subsection \<open>A block comment that opens\<close>

text \<open>
  Claim C3, as stated, fails: the chunk accumulated before the opening line is saved as
  a section of its own.
\<close>

theorem block_opening_flushes_counterexample:
  "parse example_locale_parse ''en.md'' (''Title'' @ nl # ''code'' @ nl # ''```python'') None
     default_renderer =
     Inr \<lparr>title = ''Title'',
          sections =
            [\<lparr>sec_text = nl # ''code'', sec_html = None, sec_num = None\<rparr>,
             \<lparr>sec_text = ''```python'', sec_html = None, sec_num = None\<rparr>],
          language = ''en''\<rparr>"
  by (simp add: parse_def split_sections_def title_and_lines_def
        get_language_def match_stem_def basename_def example_locale_parse_def
        parse_line_def delimiter_step_def save_def Let_def delimiter_line_def
        startswith_def endswith_def strip_def lstrip_def rstrip_def is_space_def
        strip_delimiters_def default_renderer_def multi_line_delimiters_def)

text \<open>
  Claim C3, amended. Outside a block comment, a delimiter line that does not close on
  the same line turns the flag on; the chunk accumulated so far is saved as a section
  when it is not empty, and the new chunk is the content of the line (without the
  delimiters only when the renderer asks for stripping), which is not saved at this
  step.
\<close>

theorem block_opening_line:
  assumes "multi_line_delimiters r = Some (ms, me)"
    and "delimiter_line ms me line"
    and "\<not> (endswith (strip line) me \<and> length me < length (strip line))"
  shows "parse_line r (False, chunk, secs) line =
           (True, strip_delimiters r ms me line,
            if chunk = [] then secs
            else secs @ [\<lparr>sec_text = chunk, sec_html = None, sec_num = None\<rparr>])"
  using assms by (auto simp add: parse_line_def delimiter_step_def save_def Let_def)

theorem block_opening_line_witness:
  "parse_line default_renderer (False, nl # ''code'', []) ''```python'' =
     (True, ''```python'', [\<lparr>sec_text = nl # ''code'', sec_html = None, sec_num = None\<rparr>])"
proof -
  have d: "multi_line_delimiters default_renderer = Some (''```'', ''```'')"
    by (simp add: multi_line_delimiters_def default_renderer_def)
  have l: "delimiter_line ''```'' ''```'' ''```python''"
    by (simp add: delimiter_line_def startswith_def lstrip_def is_space_def)
  have e: "\<not> (endswith (strip ''```python'') ''```'' \<and> length ''```'' < length (strip ''```python''))"
    by (simp add: endswith_def strip_def lstrip_def rstrip_def is_space_def)
  show ?thesis
    using block_opening_line [OF d l e, of "nl # ''code''" "[]"]
    by (simp add: strip_delimiters_def default_renderer_def)
qed

subsection \<open>Returning a document\<close>

text \<open>
  Claim C4, as stated, fails: \<open>parse\<close> raises when the language cannot be determined,
  and it raises \<open>IndexError\<close> on a text that is only the line of an interpreter
  directive.
\<close>

theorem parse_raises_counterexample:
  "parse example_locale_parse ''README'' (''Title'' @ nl # ''body'') None default_renderer =
     Inl (ValueError ''Can't figure out the language!'') \<and>
   parse example_locale_parse ''docs/en.md'' ''#!/bin/sh'' None default_renderer = Inl IndexError"
  by (simp add: parse_def get_language_def match_stem_def basename_def example_locale_parse_def
      split_sections_def title_and_lines_def startswith_def)

text \<open>
  Claim C4, amended. When \<open>get_language\<close> returns a language and the text has a line
  left for the title once the interpreter directive is discarded, \<open>parse\<close> returns a
  document. Its sections are those saved by the loop followed by the chunk that is left
  at the end of the input when it is not empty, whether or not a block comment is still
  open then.
\<close>

theorem parse_returns_document:
  assumes "get_language locale_parse source text forced = Inr lang"
    and "\<not> (startswith text ''#!'' \<and> nl \<notin> set text)"
  shows "\<exists>t rest multi_line chunk secs.
           title_and_lines text = Inr (t, rest) \<and>
           foldl (parse_line r) (False, [], []) rest = (multi_line, chunk, secs) \<and>
           parse locale_parse source text forced r =
             Inr \<lparr>title = t,
                  sections =
                    (if chunk = [] then secs
                     else secs @ [\<lparr>sec_text = chunk, sec_html = None, sec_num = None\<rparr>]),
                  language = lang\<rparr>"
proof -
  obtain t rest where tl: "title_and_lines text = Inr (t, rest)"
    using title_and_lines_total [OF assms(2)] by blast
  obtain multi_line chunk secs
    where st: "foldl (parse_line r) (False, [], []) rest = (multi_line, chunk, secs)"
    by (cases "foldl (parse_line r) (False, [], []) rest") auto
  have "parse locale_parse source text forced r =
          Inr \<lparr>title = t,
               sections =
                 (if chunk = [] then secs
                  else secs @ [\<lparr>sec_text = chunk, sec_html = None, sec_num = None\<rparr>]),
               language = lang\<rparr>"
    using assms(1) tl st by (simp add: parse_def split_sections_def save_def)
  with tl st show ?thesis by blast
qed

theorem parse_returns_document_witness:
  "parse example_locale_parse ''docs/en.md'' (''Title'' @ nl # ''```python'' @ nl # ''x = 1'') None
     default_renderer =
   Inr \<lparr>title = ''Title'',
        sections = [\<lparr>sec_text = ''```python'' @ nl # ''x = 1'', sec_html = None, sec_num = None\<rparr>],
        language = ''en''\<rparr>"
proof -
  have l: "get_language example_locale_parse ''docs/en.md''
             (''Title'' @ nl # ''```python'' @ nl # ''x = 1'') None = Inr ''en''"
    by (simp add: get_language_def match_stem_def basename_def example_locale_parse_def)
  have s: "\<not> (startswith (''Title'' @ nl # ''```python'' @ nl # ''x = 1'') ''#!'' \<and>
               nl \<notin> set (''Title'' @ nl # ''```python'' @ nl # ''x = 1''))"
    by simp
  have t: "title_and_lines (''Title'' @ nl # ''```python'' @ nl # ''x = 1'') =
             Inr (''Title'', [''```python'', ''x = 1''])"
    by (simp add: title_and_lines_def startswith_def)
  have f: "foldl (parse_line default_renderer) (False, [], []) [''```python'', ''x = 1''] =
             (True, ''```python'' @ nl # ''x = 1'', [])"
    by (simp add: parse_line_def delimiter_step_def save_def Let_def delimiter_line_def
        startswith_def endswith_def strip_def lstrip_def rstrip_def is_space_def
        strip_delimiters_def default_renderer_def multi_line_delimiters_def)
  show ?thesis
    using parse_returns_document [OF l s, of default_renderer] t f by auto
qed

subsection \<open>Sections are non-empty and in order\<close>

text \<open>
  Claim C8. No section of a parsed document has an empty text. The texts of the sections,
  put one after the other and read without their line feeds, are the contents of the
  lines after the title in their order. A text that holds line feeds only has no
  sections.
\<close>

theorem sections_nonempty_in_order:
  assumes "parse locale_parse source text forced r = Inr doc"
  shows "(\<forall>s \<in> set (sections doc). sec_text s \<noteq> []) \<and>
         (\<exists>t rest. title_and_lines text = Inr (t, rest) \<and>
            filter (\<lambda>c. c \<noteq> nl) (concat (map sec_text (sections doc))) =
              concat (map (buffered_line r) rest)) \<and>
         (set text \<subseteq> {nl} \<longrightarrow> sections doc = [])"
proof -
  obtain lang t secs0 where sp: "split_sections r text = Inr (t, secs0)"
    and doc: "doc = \<lparr>title = t, sections = secs0, language = lang\<rparr>"
    using assms by (auto simp add: parse_def split: sum.splits)
  obtain rest where tl: "title_and_lines text = Inr (t, rest)"
    using sp by (auto simp add: split_sections_def split: sum.splits prod.splits)
  obtain multi_line chunk secs
    where st: "foldl (parse_line r) (False, [], []) rest = (multi_line, chunk, secs)"
    by (cases "foldl (parse_line r) (False, [], []) rest") auto
  have secs0: "secs0 = save chunk secs"
    using sp tl st by (simp add: split_sections_def)
  have "\<forall>s \<in> set secs. sec_text s \<noteq> []"
    using foldl_parse_line_nonempty [OF _ st] by simp
  then have nonempty: "\<forall>s \<in> set secs0. sec_text s \<noteq> []"
    unfolding secs0 by (rule save_nonempty)
  have "\<forall>l \<in> set rest. nl \<notin> set l"
    using title_and_lines_no_nl [OF tl] by blast
  then have "flat (chunk, secs) = flat ([], []) @ concat (map (buffered_line r) rest)"
    using st by (rule foldl_parse_line_flat)
  then have "flat ([], secs0) = concat (map (buffered_line r) rest)"
    unfolding secs0 flat_save by (simp add: flat_def)
  then have order: "filter (\<lambda>c. c \<noteq> nl) (concat (map sec_text secs0)) =
                      concat (map (buffered_line r) rest)"
    by (simp add: flat_def)
  have blank: "set text \<subseteq> {nl} \<longrightarrow> secs0 = []"
    using sp split_sections_blank [of "text" r] by auto
  show ?thesis using nonempty order blank tl doc by auto
qed

theorem sections_nonempty_in_order_witness:
  "parse example_locale_parse ''en.md'' (''Title'' @ nl # ''alpha'' @ nl # nl # ''beta'') None
     default_renderer =
     Inr \<lparr>title = ''Title'',
          sections =
            [\<lparr>sec_text = nl # ''alpha'', sec_html = None, sec_num = None\<rparr>,
             \<lparr>sec_text = nl # ''beta'', sec_html = None, sec_num = None\<rparr>],
          language = ''en''\<rparr> \<and>
   title_and_lines (''Title'' @ nl # ''alpha'' @ nl # nl # ''beta'') =
     Inr (''Title'', [''alpha'', [], ''beta'']) \<and>
   concat (map (buffered_line default_renderer) [''alpha'', [], ''beta'']) = ''alphabeta'' \<and>
   parse example_locale_parse ''en.md'' [nl, nl, nl] None default_renderer =
     Inr \<lparr>title = [], sections = [], language = ''en''\<rparr>"
proof -
  let ?input = "''Title'' @ nl # ''alpha'' @ nl # nl # ''beta''"
  have p: "parse example_locale_parse ''en.md'' ?input None default_renderer =
     Inr \<lparr>title = ''Title'',
          sections =
            [\<lparr>sec_text = nl # ''alpha'', sec_html = None, sec_num = None\<rparr>,
             \<lparr>sec_text = nl # ''beta'', sec_html = None, sec_num = None\<rparr>],
          language = ''en''\<rparr>"
    by (simp add: parse_def split_sections_def title_and_lines_def
        get_language_def match_stem_def basename_def example_locale_parse_def
        parse_line_def save_def delimiter_line_def
        startswith_def endswith_def lstrip_def rstrip_def is_space_def
        default_renderer_def multi_line_delimiters_def)
  have q: "parse example_locale_parse ''en.md'' [nl, nl, nl] None default_renderer =
     Inr \<lparr>title = [], sections = [], language = ''en''\<rparr>"
    by (simp add: parse_def get_language_def match_stem_def basename_def example_locale_parse_def
        split_sections_blank)
  have t: "title_and_lines ?input = Inr (''Title'', [''alpha'', [], ''beta''])"
    by (simp add: title_and_lines_def startswith_def)
  have b: "concat (map (buffered_line default_renderer) [''alpha'', [], ''beta'']) = ''alphabeta''"
    by (simp add: buffered_line_def delimiter_line_def
        startswith_def endswith_def lstrip_def rstrip_def is_space_def
        default_renderer_def multi_line_delimiters_def)
  show ?thesis
    using sections_nonempty_in_order [OF p] p q t b
    by simp
qed

subsection \<open>The language of the document\<close>

text \<open>
  Claim C10. When no language is forced, \<open>parse\<close> takes the language from the name of
  the source file: the stem of its base name is handed to \<open>Locale.parse\<close>. When that
  gives a locale and the text splits, the document carries the language of the locale.
  When it raises, \<open>parse\<close> raises the same error; when it gives nothing, or when the
  base name has no stem, \<open>parse\<close> raises \<open>ValueError\<close>; all this whatever the text is.
\<close>

theorem parse_language_from_source_name:
  "(match_stem (basename source) = Some stem \<and> locale_parse stem = Inr (Some l) \<and>
      split_sections r input = Inr (t, secs) \<longrightarrow>
      parse locale_parse source input None r = Inr \<lparr>title = t, sections = secs, language = l\<rparr>) \<and>
   (match_stem (basename source) = Some stem \<and> locale_parse stem = Inl e \<longrightarrow>
      parse locale_parse source input None r = Inl e) \<and>
   (match_stem (basename source) = Some stem \<and> locale_parse stem = Inr None \<longrightarrow>
      parse locale_parse source input None r = Inl (ValueError ''Can't figure out the language!'')) \<and>
   (match_stem (basename source) = None \<longrightarrow>
      parse locale_parse source input None r = Inl (ValueError ''Can't figure out the language!''))"
  by (simp add: parse_def get_language_def)

theorem parse_language_from_source_name_witness:
  "parse example_locale_parse ''docs/en.md'' (''Title'' @ nl # ''body'') None default_renderer =
     Inr \<lparr>title = ''Title'',
          sections = [\<lparr>sec_text = nl # ''body'', sec_html = None, sec_num = None\<rparr>],
          language = ''en''\<rparr> \<and>
   parse example_locale_parse ''docs/notes.md'' (''Title'' @ nl # ''body'') None default_renderer =
     Inl (UnknownLocaleError ''notes'') \<and>
   parse example_locale_parse ''README'' (''Title'' @ nl # ''body'') None default_renderer =
     Inl (ValueError ''Can't figure out the language!'')"
proof -
  let ?input = "''Title'' @ nl # ''body''"
  have s: "split_sections default_renderer ?input =
             Inr (''Title'', [\<lparr>sec_text = nl # ''body'', sec_html = None, sec_num = None\<rparr>])"
    by (simp add: split_sections_def title_and_lines_def
        parse_line_def save_def delimiter_line_def
        startswith_def endswith_def lstrip_def rstrip_def is_space_def
        default_renderer_def multi_line_delimiters_def)
  have m1: "match_stem (basename ''docs/en.md'') = Some ''en''"
    by (simp add: match_stem_def basename_def)
  have m2: "match_stem (basename ''docs/notes.md'') = Some ''notes''"
    by (simp add: match_stem_def basename_def)
  have m3: "match_stem (basename ''README'') = None"
    by (simp add: match_stem_def basename_def)
  have l1: "example_locale_parse ''en'' = Inr (Some ''en'')"
    by (simp add: example_locale_parse_def)
  have l2: "example_locale_parse ''notes'' = Inl (UnknownLocaleError ''notes'')"
    by (simp add: example_locale_parse_def)
  show ?thesis
    using parse_language_from_source_name
            [where source = "''docs/en.md''" and stem = "''en''" and locale_parse = example_locale_parse
               and l = "''en''" and r = default_renderer and input = ?input and t = "''Title''"
               and secs = "[\<lparr>sec_text = nl # ''body'', sec_html = None, sec_num = None\<rparr>]"]
          parse_language_from_source_name
            [where source = "''docs/notes.md''" and stem = "''notes''"
               and locale_parse = example_locale_parse and e = "UnknownLocaleError ''notes''"
               and r = default_renderer and input = ?input]
          parse_language_from_source_name
            [where source = "''README''" and locale_parse = example_locale_parse
               and r = default_renderer and input = ?input]
          s m1 m2 m3 l1 l2
    by simp
qed

section \<open>Properties of preprocess\<close>

subsection \<open>The heading rule\<close>

lemma not_space_equals: "\<not> is_space (CHR ''='')"
  by (simp add: is_space_def)

lemma takeWhile_dropWhile_run:
  assumes "ys = [] \<or> \<not> P (hd ys)" and "\<forall>x \<in> set xs. P x"
  shows "takeWhile P (xs @ ys) = xs \<and> dropWhile P (xs @ ys) = ys"
proof -
  have "takeWhile P ys = [] \<and> dropWhile P ys = ys"
    using assms(1) by (cases ys) auto
  then show ?thesis
    using assms(2) by (simp add: takeWhile_append2 dropWhile_append2)
qed

lemma match_section_name_heading:
  assumes "0 < k" and "name \<noteq> []" and "CHR ''='' \<notin> set name"
    and "list_all is_space ws" and "j = 0 \<longrightarrow> ws = []"
  shows "match_section_name (replicate k (CHR ''='') @ name @ replicate j (CHR ''='') @ ws) =
           Some (replicate k (CHR ''=''), name)"
proof -
  let ?e = "\<lambda>c. c = CHR ''=''"
  let ?n = "\<lambda>c. c \<noteq> CHR ''=''"
  let ?tail = "replicate j (CHR ''='') @ ws"
  let ?rest = "name @ ?tail"
  have ws: "CHR ''='' \<notin> set ws"
    using assms(4) not_space_equals unfolding list_all_iff by blast
  have a: "takeWhile ?e (replicate k (CHR ''='') @ ?rest) = replicate k (CHR ''='') \<and>
           dropWhile ?e (replicate k (CHR ''='') @ ?rest) = ?rest"
  proof (rule takeWhile_dropWhile_run)
    show "?rest = [] \<or> \<not> hd ?rest = CHR ''=''"
      using assms(2,3) by (cases name) auto
    show "\<forall>x \<in> set (replicate k (CHR ''='')). x = CHR ''=''" by simp
  qed
  have b: "takeWhile ?n ?rest = name \<and> dropWhile ?n ?rest = ?tail"
  proof (rule takeWhile_dropWhile_run)
    show "?tail = [] \<or> \<not> hd ?tail \<noteq> CHR ''=''"
    proof (cases j)
      case 0
      then show ?thesis using assms(5) by simp
    next
      case (Suc i)
      then show ?thesis by simp
    qed
    show "\<forall>x \<in> set name. x \<noteq> CHR ''=''" using assms(3) by auto
  qed
  have c: "takeWhile ?e ?tail = replicate j (CHR ''='') \<and> dropWhile ?e ?tail = ws"
  proof (rule takeWhile_dropWhile_run)
    show "ws = [] \<or> \<not> hd ws = CHR ''=''" using ws by (cases ws) auto
    show "\<forall>x \<in> set (replicate j (CHR ''='')). x = CHR ''=''" by simp
  qed
  have k: "replicate k (CHR ''='') \<noteq> []" using assms(1) by simp
  show ?thesis
    unfolding match_section_name_def Let_def
    by (simp only: a b c k assms(2,4) simp_thms if_True)
qed

lemma sub_section_name_no_heading: "\<not> startswith comment ''='' \<Longrightarrow> sub_section_name comment = comment"
  by (cases comment) (auto simp add: sub_section_name_def match_section_name_def startswith_def)

text \<open>
  On a comment that is a heading and nothing else the rule writes the marker that the
  docstring of \<open>preprocess\<close> describes: as many hashes as there were leading equals
  signs and a span whose id is the text lower-cased, stripped and with hyphens for
  spaces, around the text as it was matched.
\<close>

lemma heading_marker_of_whole_text:
  assumes "0 < k" and "name \<noteq> []" and "CHR ''='' \<notin> set name"
    and "list_all is_space ws" and "j = 0 \<longrightarrow> ws = []"
  shows "preprocess (replicate k (CHR ''='') @ name @ replicate j (CHR ''='') @ ws) n destination =
           sub_crossref destination
             (replicate k (CHR ''#'')
              @ '' <span id='' @ [dquote] @ sanitize_section_name name @ [dquote]
              @ '' href='' @ [dquote] @ sanitize_section_name name @ [dquote]
              @ ''>'' @ name @ ''</span>'')"
proof -
  have "sub_section_name (replicate k (CHR ''='') @ name @ replicate j (CHR ''='') @ ws) =
          replace_section_name (replicate k (CHR ''='')) name"
    unfolding sub_section_name_def match_section_name_heading [OF assms] by simp
  then show ?thesis
    by (simp add: preprocess_def replace_section_name_def)
qed

lemma heading_marker_of_bare_heading:
  "preprocess (''=== Setup ==='' @ [nl]) 0 example_destination =
     Inr (''### <span id='' @ [dquote] @ ''setup'' @ [dquote] @ '' href='' @ [dquote] @ ''setup''
          @ [dquote] @ ''> Setup </span>'')"
  by code_simp

text \<open>
  The texts that \<open>parse\<close> builds never start with an equals sign. A chunk grows by a
  line feed and a line, or it starts with the line that opens a block comment; a line
  that starts with an equals sign and matches the markdown delimiter ends with the
  delimiter and is longer than it, so it closes on the same line and is appended behind
  a line feed as well.
\<close>

lemma rstrip_keeps_head:
  assumes "\<not> is_space c"
  shows "\<exists>w. rstrip (c # rest) = c # w"
proof -
  have "dropWhile is_space (rev rest @ [c]) =
          (if \<forall>x \<in> set (rev rest). is_space x then dropWhile is_space [c]
           else dropWhile is_space (rev rest) @ [c])"
    by (rule dropWhile_append)
  then obtain z where "dropWhile is_space (rev rest @ [c]) = z @ [c]"
    using assms by (cases "\<forall>x \<in> set (rev rest). is_space x") auto
  then have "rstrip (c # rest) = c # rev z" by (simp add: rstrip_def)
  then show ?thesis by blast
qed

lemma heading_line_self_closes:
  assumes "startswith line ''=''" and "delimiter_line ''```'' ''```'' line"
  shows "endswith (strip line) ''```'' \<and> length ''```'' < length (strip line)"
proof -
  obtain rest where line: "line = CHR ''='' # rest"
    using assms(1) by (cases line) (auto simp add: startswith_def)
  have l: "lstrip line = line"
    unfolding line lstrip_def using not_space_equals by simp
  have "\<not> startswith line ''```''" unfolding line by (simp add: startswith_def)
  then have e: "endswith (rstrip line) ''```''"
    using assms(2) l by (simp add: delimiter_line_def)
  obtain w where w: "rstrip line = CHR ''='' # w"
    unfolding line using rstrip_keeps_head [OF not_space_equals] by blast
  have s: "strip line = CHR ''='' # w" by (simp add: strip_def l w)
  have "length ''```'' \<noteq> length (CHR ''='' # w)"
  proof
    assume "length ''```'' = length (CHR ''='' # w)"
    then have "drop (length (CHR ''='' # w) - length ''```'') (CHR ''='' # w) = CHR ''='' # w"
      by simp
    then show False using e unfolding w endswith_def by simp
  qed
  moreover have "length ''```'' \<le> length (CHR ''='' # w)"
    using e unfolding w endswith_def by blast
  ultimately have "length ''```'' < length (CHR ''='' # w)" by linarith
  then show ?thesis using e unfolding s w by simp
qed

lemma not_heading_append:
  "\<not> startswith a ''='' \<Longrightarrow> \<not> startswith (a @ nl # b) ''=''"
  by (cases a) (auto simp add: startswith_def)

lemma parse_line_no_heading:
  assumes "\<forall>s \<in> set secs. \<not> startswith (sec_text s) ''=''"
    and "\<not> startswith chunk ''=''"
    and "parse_line default_renderer (multi_line, chunk, secs) line = (multi_line', chunk', secs')"
  shows "(\<forall>s \<in> set secs'. \<not> startswith (sec_text s) ''='') \<and> \<not> startswith chunk' ''=''"
proof -
  have d: "multi_line_delimiters default_renderer = Some (''```'', ''```'')"
    by (simp add: multi_line_delimiters_def default_renderer_def)
  have s: "strip_delimiters default_renderer ''```'' ''```'' line = line"
    by (simp add: strip_delimiters_def default_renderer_def)
  have e: "\<not> startswith [] ''=''" by (simp add: startswith_def)
  have n: "\<not> startswith (chunk @ nl # line) ''=''"
    using assms(2) by (rule not_heading_append)
  show ?thesis
  proof (cases "delimiter_line ''```'' ''```'' line")
    case False
    then show ?thesis
      using assms d e n by (auto simp add: parse_line_def save_def split: if_splits)
  next
    case True
    show ?thesis
    proof (cases "startswith line ''=''")
      case False
      then show ?thesis
        using assms d s e n True
        by (auto simp add: parse_line_def delimiter_step_def save_def Let_def split: if_splits)
    next
      case h: True
      have c: "endswith (strip line) ''```'' \<and> length ''```'' < length (strip line)"
        using h True by (rule heading_line_self_closes)
      show ?thesis
        using assms d s e n True c
        by (auto simp add: parse_line_def delimiter_step_def save_def Let_def split: if_splits)
    qed
  qed
qed

lemma foldl_parse_line_no_heading:
  assumes "\<forall>s \<in> set secs. \<not> startswith (sec_text s) ''=''"
    and "\<not> startswith chunk ''=''"
    and "foldl (parse_line default_renderer) (multi_line, chunk, secs) ls = (multi_line', chunk', secs')"
  shows "(\<forall>s \<in> set secs'. \<not> startswith (sec_text s) ''='') \<and> \<not> startswith chunk' ''=''"
  using assms
proof (induction ls arbitrary: multi_line chunk secs)
  case Nil
  then show ?case by simp
next
  case (Cons l ls)
  obtain m c s where st: "parse_line default_renderer (multi_line, chunk, secs) l = (m, c, s)"
    by (cases "parse_line default_renderer (multi_line, chunk, secs) l") auto
  have inv: "(\<forall>x \<in> set s. \<not> startswith (sec_text x) ''='') \<and> \<not> startswith c ''=''"
    using parse_line_no_heading [OF Cons.prems(1,2) st] .
  have f: "foldl (parse_line default_renderer) (m, c, s) ls = (multi_line', chunk', secs')"
    using Cons.prems(3) st by simp
  show ?case using Cons.IH [OF _ _ f] inv by blast
qed

text \<open>
  So for every section of a document parsed with the renderer of \<open>prepare_renderer\<close>
  the heading pattern, which is anchored at the start of the text, does not match: the
  call \<open>preprocess(text, i, destination)\<close> of \<open>highlight\<close> only applies the
  cross-reference rule.
\<close>

lemma heading_rule_never_fires:
  assumes "parse locale_parse source input forced default_renderer = Inr doc"
    and "s \<in> set (sections doc)"
  shows "preprocess (sec_text s) n destination = sub_crossref destination (sec_text s)"
proof -
  obtain t rest where tl: "title_and_lines input = Inr (t, rest)"
    using assms(1)
    by (auto simp add: parse_def split_sections_def split: sum.splits prod.splits)
  obtain multi_line chunk secs
    where st: "foldl (parse_line default_renderer) (False, [], []) rest = (multi_line, chunk, secs)"
    by (cases "foldl (parse_line default_renderer) (False, [], []) rest") auto
  have doc: "sections doc = save chunk secs"
    using assms(1) tl st by (auto simp add: parse_def split_sections_def split: sum.splits)
  have e: "\<not> startswith [] ''=''" by (simp add: startswith_def)
  have "(\<forall>x \<in> set secs. \<not> startswith (sec_text x) ''='') \<and> \<not> startswith chunk ''=''"
    using foldl_parse_line_no_heading [OF _ e st] by simp
  then have "\<not> startswith (sec_text s) ''=''"
    using assms(2) unfolding doc by (auto simp add: save_def split: if_splits)
  then show ?thesis
    by (simp add: preprocess_def sub_section_name_no_heading)
qed

text \<open>
  Claim C5. The claim, like the docstring of \<open>preprocess\<close>, has a line of the form
  \<open>=== Setup ===\<close> rewritten into a heading marker. The program does not do it: for
  a source whose only paragraph is that line, the section text is the line behind a
  line feed, and \<open>preprocess\<close> returns this text as it is.
\<close>

theorem heading_line_not_rewritten:
  "parse example_locale_parse ''en.md'' (''Title'' @ nl # ''=== Setup ==='' @ [nl]) None
     default_renderer =
     Inr \<lparr>title = ''Title'',
          sections = [\<lparr>sec_text = nl # ''=== Setup ==='', sec_html = None, sec_num = None\<rparr>],
          language = ''en''\<rparr> \<and>
   preprocess (nl # ''=== Setup ==='') 0 example_destination = Inr (nl # ''=== Setup ==='')"
  by (simp add: parse_def split_sections_def title_and_lines_def
        get_language_def match_stem_def basename_def example_locale_parse_def
        parse_line_def save_def delimiter_line_def
        startswith_def endswith_def lstrip_def rstrip_def is_space_def
        default_renderer_def multi_line_delimiters_def
        preprocess_def sub_section_name_def match_section_name_def
        sub_crossref_def crossref_match_def)

subsection \<open>The cross-reference rule\<close>

lemma lazy_group_sound:
  "lazy_group s = Some g \<Longrightarrow> g \<noteq> [] \<and> nl \<notin> set g \<and> take (length g + 2) s = g @ '']]''"
proof (induction s arbitrary: g)
  case Nil
  then show ?case by simp
next
  case (Cons c cs)
  show ?case
  proof (cases "take 2 cs = '']]''")
    case True
    then have "g = [c] \<and> c \<noteq> nl" using Cons.prems by (auto split: if_splits)
    then show ?thesis using True by (auto simp add: numeral_2_eq_2)
  next
    case False
    then obtain g' where g': "lazy_group cs = Some g'" and g: "g = c # g'" and c: "c \<noteq> nl"
      using Cons.prems by (auto split: if_splits)
    then show ?thesis using Cons.IH [OF g'] by simp
  qed
qed

lemma crossref_match_sound:
  assumes "crossref_match (c # cs) = Some g"
  shows "c \<noteq> backtick \<and> g \<noteq> [] \<and> take (length g + 4) cs = ''[['' @ g @ '']]''"
proof -
  obtain rest where cs: "cs = CHR ''['' # CHR ''['' # rest"
    and c: "c \<noteq> backtick" and l: "lazy_group rest = Some g"
    using assms by (auto simp add: crossref_match_def split: list.splits if_splits)
  have h: "g \<noteq> [] \<and> take (length g + 2) rest = g @ '']]''"
    using lazy_group_sound [OF l] by simp
  have n: "length g + 4 = Suc (Suc (length g + 2))" by simp
  have "take (length g + 4) cs = CHR ''['' # CHR ''['' # take (length g + 2) rest"
    unfolding n cs by (simp only: take_Suc_Cons)
  then show ?thesis using c h by simp
qed

lemma crossref_scan_source: "concat (map piece_source (crossref_scan s)) = s"
proof (induction s rule: crossref_scan.induct)
  case 1
  then show ?case by simp
next
  case (2 c cs)
  show ?case
  proof (cases "crossref_match (c # cs)")
    case None
    then have "concat (map piece_source (crossref_scan cs)) = cs" by (rule 2)
    then show ?thesis using None by simp
  next
    case (Some g)
    have "take (length g + 4) cs = ''[['' @ g @ '']]''"
      using crossref_match_sound [OF Some] by simp
    then have "cs = (''[['' @ g @ '']]'') @ drop (length g + 4) cs"
      by (metis append_take_drop_id)
    moreover have "concat (map piece_source (crossref_scan (drop (length g + 4) cs))) =
                     drop (length g + 4) cs"
      using Some by (rule 2)
    ultimately have "c # ''[['' @ g @ '']]''
                       @ concat (map piece_source (crossref_scan (drop (length g + 4) cs))) = c # cs"
      by simp
    then show ?thesis using Some by simp
  qed
qed

lemma crossref_scan_no_backtick: "Crossref c g \<in> set (crossref_scan s) \<Longrightarrow> c \<noteq> backtick"
proof (induction s rule: crossref_scan.induct)
  case 1
  then show ?case by simp
next
  case (2 a cs)
  show ?case
  proof (cases "crossref_match (a # cs)")
    case None
    then show ?thesis using 2 by auto
  next
    case (Some h)
    then have "a \<noteq> backtick" using crossref_match_sound by blast
    then show ?thesis using 2 Some by auto
  qed
qed

lemma replace_crossref_space:
  "replace_crossref destination g = Inr link \<Longrightarrow> \<exists>l. link = CHR '' '' # CHR ''['' # l"
  by (auto simp add: replace_crossref_def split: if_splits list.splits)

lemma render_pieces_append:
  "render_pieces destination (ps @ qs) =
     (case render_pieces destination ps of
        Inl e \<Rightarrow> Inl e
      | Inr a \<Rightarrow> (case render_pieces destination qs of Inl e \<Rightarrow> Inl e | Inr b \<Rightarrow> Inr (a @ b)))"
  by (induction destination ps rule: render_pieces.induct) (auto split: sum.splits)


lemma crossref_scan_brackets:
  assumes "\<not> startswith rest ''[''"
  shows "crossref_scan (''[['' @ rest) = Keep (CHR ''['') # Keep (CHR ''['') # crossref_scan rest"
  using assms by (cases rest) (auto simp add: crossref_match_def startswith_def split: list.splits)
















text \<open>
  Claim C9. Every match of the cross-reference pattern begins with a character \<open>c\<close>
  that is not a backtick and stands before the opening brackets: the text splits into
  what was read before the match, \<open>c\<close>, the reference and what was read behind it.
  In the output the replacement, which begins with a space, stands between what was
  written for the two sides, so \<open>c\<close> is gone and a space is in its place. A text
  that starts with two opening brackets, the third character being no opening bracket,
  keeps these brackets.
\<close>

theorem crossref_needs_preceding_character:
  "(crossref_scan comment = ps @ Crossref c g # qs \<longrightarrow>
      c \<noteq> backtick \<and>
      comment = concat (map piece_source ps) @ c # ''[['' @ g @ '']]'' @ concat (map piece_source qs) \<and>
      (sub_crossref destination comment = Inr out \<longrightarrow>
         (\<exists>a link b. render_pieces destination ps = Inr a \<and>
            replace_crossref destination g = Inr (CHR '' '' # link) \<and>
            render_pieces destination qs = Inr b \<and>
            out = a @ CHR '' '' # link @ b))) \<and>
   (\<not> startswith rest ''['' \<longrightarrow>
      sub_crossref destination (''[['' @ rest) =
        (case sub_crossref destination rest of Inl e \<Rightarrow> Inl e | Inr b \<Rightarrow> Inr (''[['' @ b)))"
proof -
  have first: "c \<noteq> backtick \<and>
      comment = concat (map piece_source ps) @ c # ''[['' @ g @ '']]'' @ concat (map piece_source qs) \<and>
      (sub_crossref destination comment = Inr out \<longrightarrow>
         (\<exists>a link b. render_pieces destination ps = Inr a \<and>
            replace_crossref destination g = Inr (CHR '' '' # link) \<and>
            render_pieces destination qs = Inr b \<and>
            out = a @ CHR '' '' # link @ b))"
    if scan: "crossref_scan comment = ps @ Crossref c g # qs"
  proof -
    have "Crossref c g \<in> set (crossref_scan comment)" using scan by simp
    then have c: "c \<noteq> backtick" by (rule crossref_scan_no_backtick)
    have "concat (map piece_source (crossref_scan comment)) = comment"
      by (rule crossref_scan_source)
    then have src: "comment = concat (map piece_source ps) @ c # ''[['' @ g @ '']]''
                       @ concat (map piece_source qs)"
      unfolding scan by simp
    have out: "\<exists>a link b. render_pieces destination ps = Inr a \<and>
            replace_crossref destination g = Inr (CHR '' '' # link) \<and>
            render_pieces destination qs = Inr b \<and>
            out = a @ CHR '' '' # link @ b"
      if r: "sub_crossref destination comment = Inr out"
    proof -
      have "render_pieces destination (ps @ Crossref c g # qs) = Inr out"
        using r scan by (simp add: sub_crossref_def)
      then obtain a l b where a: "render_pieces destination ps = Inr a"
        and l: "replace_crossref destination g = Inr l"
        and b: "render_pieces destination qs = Inr b" and o: "out = a @ l @ b"
        unfolding render_pieces_append by (auto split: sum.splits)
      obtain link where "l = CHR '' '' # link"
        using replace_crossref_space [OF l] by blast
      then show ?thesis using a l b o by simp
    qed
    show ?thesis using c src out by blast
  qed
  have second: "sub_crossref destination (''[['' @ rest) =
        (case sub_crossref destination rest of Inl e \<Rightarrow> Inl e | Inr b \<Rightarrow> Inr (''[['' @ b))"
    if "\<not> startswith rest ''[''"
    unfolding sub_crossref_def crossref_scan_brackets [OF that]
    by (simp split: sum.splits)
  show ?thesis using first second by blast
qed

theorem crossref_needs_preceding_character_witness:
  "crossref_scan ''x[[a]]y'' = [Crossref (CHR ''x'') ''a'', Keep (CHR ''y'')] \<and>
   sub_crossref example_destination ''x[[a]]y'' = Inr '' [a](a.html)y'' \<and>
   sub_crossref example_destination ''[[a]]y'' = Inr ''[[a]]y''"
proof -
  have s: "crossref_scan ''x[[a]]y'' = [] @ Crossref (CHR ''x'') ''a'' # [Keep (CHR ''y'')]"
    by (simp add: crossref_match_def)
  have o: "sub_crossref example_destination ''x[[a]]y'' = Inr '' [a](a.html)y''"
    by (simp add: sub_crossref_def crossref_match_def replace_crossref_def basename_def
        example_destination_def)
  have r: "\<not> startswith ''a]]y'' ''[''" by (simp add: startswith_def)
  have t: "sub_crossref example_destination ''a]]y'' = Inr ''a]]y''"
    by (simp add: sub_crossref_def crossref_match_def)
  show ?thesis
    using crossref_needs_preceding_character
            [of "''x[[a]]y''" "[]" "CHR ''x''" "''a''" "[Keep (CHR ''y'')]" example_destination
                "'' [a](a.html)y''" "''a]]y''"]
          s o r t
    by simp
qed


end
